theory Spec2Isabelle
  imports Complex_Main "HOL-Library.Multiset"
begin

section \<open>Strings as the search service uses them\<close>

text \<open>
  A string is a list of characters. The characters are the 256 code units
  0..255 (ASCII and Latin-1); \<open>length\<close> counts them, as \<open>String.length\<close> does
  for such strings.
\<close>

definition backslash :: char where
  "backslash = CHR 0x5C"

definition is_space :: "char \<Rightarrow> bool" where
  \<comment> \<open>The white space of \<open>trim()\<close> and of the class \<open>\s\<close> below code unit 256:
      TAB, LF, VT, FF, CR, SPACE, NBSP.\<close>
  "is_space c = (c \<in> {CHR 0x09, CHR 0x0A, CHR 0x0B, CHR 0x0C, CHR 0x0D, CHR 0x20, CHR 0xA0})"

definition trim :: "string \<Rightarrow> string" where
  "trim s = rev (dropWhile is_space (rev (dropWhile is_space s)))"

definition lower_char :: "char \<Rightarrow> char" where
  \<comment> \<open>\<open>A..Z\<close> and the Latin-1 capitals \<open>0xC0..0xDE\<close> (without the sign \<open>0xD7\<close>) move
      up by 32; every other code unit is kept.\<close>
  "lower_char c =
     (let n = (of_char c :: nat)
      in if (65 \<le> n \<and> n \<le> 90) \<or> (192 \<le> n \<and> n \<le> 222 \<and> n \<noteq> 215)
         then char_of (n + 32) else c)"

definition toLowerCase :: "string \<Rightarrow> string" where
  "toLowerCase s = map lower_char s"

text \<open>\<open>s.split(/\s+/)\<close>: the pieces between maximal runs of white space. The
  second argument is the piece being read, reversed.\<close>

function split_ws :: "string \<Rightarrow> string \<Rightarrow> string list" where
  "split_ws [] cur = [rev cur]"
| "split_ws (c # cs) cur =
     (if is_space c then rev cur # split_ws (dropWhile is_space cs) []
      else split_ws cs (c # cur))"
  by pat_completeness auto
termination
  by (relation "measure (\<lambda>(s, cur). length s)")
     (auto simp: length_dropWhile_le less_Suc_eq_le)

text \<open>\<open>text.includes(pat)\<close>: \<open>pat\<close> occurs in \<open>text\<close> as a contiguous substring.\<close>

fun starts_with :: "string \<Rightarrow> string \<Rightarrow> bool" where
  "starts_with t [] = True"
| "starts_with [] (p # ps) = False"
| "starts_with (c # cs) (p # ps) = (c = p \<and> starts_with cs ps)"

fun str_includes :: "string \<Rightarrow> string \<Rightarrow> bool" where
  "str_includes [] p = (p = [])"
| "str_includes (c # cs) p = (starts_with (c # cs) p \<or> str_includes cs p)"

section \<open>Documents\<close>

record paragraph_rec =
  paragraph_text :: string

record section_rec =
  subtitle :: string
  paragraphs :: "paragraph_rec list"

record event =
  event_name :: string
  article_title :: string
  sections :: "section_rec list"

text \<open>\<open>SearchResult\<close>: a stored document has no \<open>score\<close>; the search adds one.\<close>

record SearchResult =
  doc_id :: string
  big_event_name :: string
  events :: "event list"
  score :: "real option"

section \<open>The document store\<close>

subsection \<open>Regular expressions of the field scan\<close>

text \<open>
  The store matches \<open>{ $regex: p, $options: 'i' }\<close> with a Perl-compatible
  engine. The patterns built only from ordinary characters, escaped
  non-alphanumeric characters and the dot are modelled here in full:
  an ordinary character and an escaped one match themselves without regard to
  case, the dot matches any character but the line feed, and the pattern may
  match anywhere in the text. A pattern that ends in a lone backslash, or that
  starts with a quantifier, is rejected by the engine. Every other pattern is
  left to the engine, a parameter of the store.
\<close>

datatype atom = Lit char | AnyChar

datatype pattern_class = Atoms "atom list" | Invalid | Beyond

definition is_alnum :: "char \<Rightarrow> bool" where
  "is_alnum c =
     (let n = (of_char c :: nat)
      in (48 \<le> n \<and> n \<le> 57) \<or> (65 \<le> n \<and> n \<le> 90) \<or> (97 \<le> n \<and> n \<le> 122))"

definition cons_atom :: "atom \<Rightarrow> pattern_class \<Rightarrow> pattern_class" where
  "cons_atom a r = (case r of Atoms as \<Rightarrow> Atoms (a # as) | Invalid \<Rightarrow> Invalid | Beyond \<Rightarrow> Beyond)"

definition quantifier_chars :: "char set" where
  "quantifier_chars = set ''*+?''"

definition other_meta_chars :: "char set" where
  "other_meta_chars = set ''*+?^${}()|[]''"

fun scan_pattern :: "string \<Rightarrow> pattern_class" where
  "scan_pattern [] = Atoms []"
| "scan_pattern (c # cs) =
     (if c = backslash then
        (case cs of
           [] \<Rightarrow> Invalid
         | d # ds \<Rightarrow> if is_alnum d then Beyond else cons_atom (Lit d) (scan_pattern ds))
      else if c = CHR ''.'' then cons_atom AnyChar (scan_pattern cs)
      else if c \<in> other_meta_chars then Beyond
      else cons_atom (Lit c) (scan_pattern cs))"

definition classify_pattern :: "string \<Rightarrow> pattern_class" where
  "classify_pattern p =
     (case p of [] \<Rightarrow> Atoms []
      | c # cs \<Rightarrow> if c \<in> quantifier_chars then Invalid else scan_pattern p)"

fun atom_matches :: "atom \<Rightarrow> char \<Rightarrow> bool" where
  "atom_matches (Lit c) x = (lower_char c = lower_char x)"
| "atom_matches AnyChar x = (x \<noteq> CHR 0x0A)"

fun atoms_prefix :: "atom list \<Rightarrow> string \<Rightarrow> bool" where
  "atoms_prefix [] t = True"
| "atoms_prefix (a # as) [] = False"
| "atoms_prefix (a # as) (x # xs) = (atom_matches a x \<and> atoms_prefix as xs)"

fun atoms_search :: "atom list \<Rightarrow> string \<Rightarrow> bool" where
  "atoms_search as [] = (as = [])"
| "atoms_search as (x # xs) = (atoms_prefix as (x # xs) \<or> atoms_search as xs)"

type_synonym regex_engine = "string \<Rightarrow> (string \<Rightarrow> bool) option"

definition regex_compile :: "regex_engine \<Rightarrow> string \<Rightarrow> (string \<Rightarrow> bool) option" where
  \<comment> \<open>\<open>None\<close>: the store rejects the pattern ("Regular expression is invalid").\<close>
  "regex_compile engine p =
     (case classify_pattern p of
        Atoms as \<Rightarrow> Some (atoms_search as)
      | Invalid \<Rightarrow> None
      | Beyond \<Rightarrow> engine p)"

subsection \<open>Queries\<close>

datatype field_path =
    F_big_event_name
  | F_events_event_name
  | F_events_article_title
  | F_events_sections_subtitle
  | F_events_sections_paragraphs_text

fun field_values :: "field_path \<Rightarrow> SearchResult \<Rightarrow> string list" where
  "field_values F_big_event_name d = [big_event_name d]"
| "field_values F_events_event_name d = map event_name (events d)"
| "field_values F_events_article_title d = map article_title (events d)"
| "field_values F_events_sections_subtitle d =
     concat (map (\<lambda>e. map subtitle (sections e)) (events d))"
| "field_values F_events_sections_paragraphs_text d =
     concat (map (\<lambda>e. concat (map (\<lambda>s. map paragraph_text (paragraphs s)) (sections e)))
       (events d))"

text \<open>The filters the service sends: \<open>{}\<close>, a case-insensitive \<open>$regex\<close> on a
  dotted path (true when some value on the path matches), \<open>$or\<close> and \<open>$and\<close>.\<close>

datatype mongo_query =
    MatchAll
  | Regex field_path string
  | Or "mongo_query list"
  | And "mongo_query list"

fun query_valid :: "regex_engine \<Rightarrow> mongo_query \<Rightarrow> bool" where
  "query_valid engine MatchAll = True"
| "query_valid engine (Regex f p) = (case regex_compile engine p of None \<Rightarrow> False | Some m \<Rightarrow> True)"
| "query_valid engine (Or qs) = (qs \<noteq> [] \<and> list_all (query_valid engine) qs)"
| "query_valid engine (And qs) = (qs \<noteq> [] \<and> list_all (query_valid engine) qs)"

fun query_matches :: "regex_engine \<Rightarrow> mongo_query \<Rightarrow> SearchResult \<Rightarrow> bool" where
  "query_matches engine MatchAll d = True"
| "query_matches engine (Regex f p) d =
     (case regex_compile engine p of
        None \<Rightarrow> False
      | Some m \<Rightarrow> list_ex m (field_values f d))"
| "query_matches engine (Or qs) d = list_ex (\<lambda>q. query_matches engine q d) qs"
| "query_matches engine (And qs) d = list_all (\<lambda>q. query_matches engine q d) qs"

subsection \<open>The database service\<close>

datatype error =
    ConnectFailed string
  | InvalidLanguage string
  | NotAFunction
  | StoreFailed string
  | InvalidQuery

fun error_message :: "error \<Rightarrow> string" where
  "error_message (ConnectFailed m) = m"
| "error_message (InvalidLanguage l) = ''Invalid language: '' @ l"
| "error_message NotAFunction = ''this.collections[language].find is not a function''"
| "error_message (StoreFailed m) = m"
| "error_message InvalidQuery = ''Regular expression is invalid''"

text \<open>
  What the service sees of MongoDB: whether \<open>connect()\<close> throws, the documents
  of the four collections in their natural order, the answer of the text index
  to a \<open>$text\<close> search (results sorted by \<open>textScore\<close>, or an error), whether a
  scan fails in the store itself, and the regular-expression engine.
\<close>

record database =
  connect_failure :: "string option"
  articles :: "string \<Rightarrow> SearchResult list"
  text_index :: "string \<Rightarrow> string \<Rightarrow> string + SearchResult list"
  store_failure :: "string option"
  regex_engine_of :: regex_engine

datatype db_call = Connect | TextSearch string string | Find string mongo_query

definition has_collection :: "string \<Rightarrow> bool" where
  \<comment> \<open>the keys of \<open>this.collections\<close> after \<open>connect()\<close>\<close>
  "has_collection language = (language \<in> {''ar'', ''en'', ''fr'', ''es''})"

definition inherited_key :: "string \<Rightarrow> bool" where
  \<comment> \<open>\<open>this.collections\<close> is a plain object: under these keys it answers with a
      member of \<open>Object.prototype\<close>, which is truthy and has no \<open>find\<close>\<close>
  "inherited_key language =
     (language \<in> {''constructor'', ''hasOwnProperty'', ''isPrototypeOf'',
        ''propertyIsEnumerable'', ''toLocaleString'', ''toString'', ''valueOf'', ''__proto__'',
        ''__defineGetter__'', ''__defineSetter__'', ''__lookupGetter__'', ''__lookupSetter__''})"

definition project :: "SearchResult \<Rightarrow> SearchResult" where
  \<comment> \<open>\<open>projection: { _id: 1, big_event_name: 1, events: 1 }\<close>\<close>
  "project d = d\<lparr>score := None\<rparr>"

definition find_docs :: "database \<Rightarrow> string \<Rightarrow> mongo_query \<Rightarrow> error + SearchResult list" where
  "find_docs db language q =
     (case store_failure db of
        Some m \<Rightarrow> Inl (StoreFailed m)
      | None \<Rightarrow>
          if \<not> query_valid (regex_engine_of db) q then Inl InvalidQuery
          else Inr (map project (filter (query_matches (regex_engine_of db) q) (articles db language))))"

section \<open>searchEvents\<close>

text \<open>
  \<open>DatabaseService.searchEvents\<close> of \<open>services/database.ts\<close> (lines 147 to 275),
  cut at the places where it builds the query, scores and falls back. The
  result carries the calls made to MongoDB, in order, next to the value
  returned or the error thrown.
\<close>

definition escape_set :: "char set" where
  "escape_set = {CHR ''.'', backslash} \<union> other_meta_chars"

definition escapeRegExp :: "string \<Rightarrow> string" where
  \<comment> \<open>\<open>s.replace(/[.*+?^${}()|[\]\\]/g, '\\$&')\<close>\<close>
  "escapeRegExp s = concat (map (\<lambda>c. if c \<in> escape_set then [backslash, c] else [c]) s)"

definition all_fields :: "field_path list" where
  "all_fields = [F_big_event_name, F_events_event_name, F_events_article_title,
     F_events_sections_subtitle, F_events_sections_paragraphs_text]"

definition cleanQuery_of :: "string \<Rightarrow> string" where
  \<comment> \<open>line 158: \<open>query.trim().toLowerCase()\<close>\<close>
  "cleanQuery_of query = toLowerCase (trim query)"

definition queryWords_of :: "string \<Rightarrow> string list" where
  \<comment> \<open>line 159: \<open>cleanQuery.split(/\s+/).filter(word => word.length > 0)\<close>\<close>
  "queryWords_of cleanQuery = filter (\<lambda>word. length word > 0) (split_ws cleanQuery [])"

definition exactPhraseCondition :: "string \<Rightarrow> mongo_query" where
  \<comment> \<open>lines 193 to 201\<close>
  "exactPhraseCondition cleanQuery = Or (map (\<lambda>f. Regex f (escapeRegExp cleanQuery)) all_fields)"

definition wordConditions :: "string list \<Rightarrow> mongo_query list" where
  \<comment> \<open>lines 206 to 214: the word is the pattern, as it is\<close>
  "wordConditions queryWords = map (\<lambda>word. Or (map (\<lambda>f. Regex f word) all_fields)) queryWords"

definition searchConditions :: "string \<Rightarrow> string list \<Rightarrow> mongo_query list" where
  \<comment> \<open>lines 189 to 216\<close>
  "searchConditions cleanQuery queryWords =
     (if length cleanQuery > 2 then [exactPhraseCondition cleanQuery] else []) @
     (if length queryWords > 1 then [And (wordConditions queryWords)] else [])"

definition searchQuery :: "string \<Rightarrow> string list \<Rightarrow> mongo_query" where
  \<comment> \<open>lines 161 and 219 to 221: \<open>{}\<close> unless a condition was pushed\<close>
  "searchQuery cleanQuery queryWords =
     (if length (searchConditions cleanQuery queryWords) > 0
      then Or (searchConditions cleanQuery queryWords) else MatchAll)"

definition event_score :: "string \<Rightarrow> event \<Rightarrow> real" where
  \<comment> \<open>lines 254 to 261, for one event\<close>
  "event_score cleanQuery e =
     (if str_includes (toLowerCase (event_name e)) cleanQuery then 3 else 0) +
     (if str_includes (toLowerCase (article_title e)) cleanQuery then 3 else 0)"

definition doc_score :: "string \<Rightarrow> string list \<Rightarrow> SearchResult \<Rightarrow> real" where
  \<comment> \<open>lines 241 to 261; \<open>queryWords[0] || ''\<close> is the first word or the empty string\<close>
  "doc_score cleanQuery queryWords d =
     (if str_includes (toLowerCase (big_event_name d)) cleanQuery then 10 else 0) +
     (if str_includes (toLowerCase (big_event_name d))
           (case queryWords of [] \<Rightarrow> [] | w # ws \<Rightarrow> w) then 5 else 0) +
     sum_list (map (event_score cleanQuery) (events d))"

definition with_score :: "string \<Rightarrow> string list \<Rightarrow> SearchResult \<Rightarrow> SearchResult" where
  \<comment> \<open>\<open>{ ...doc, score }\<close>\<close>
  "with_score cleanQuery queryWords d = d\<lparr>score := Some (doc_score cleanQuery queryWords d)\<rparr>"

text \<open>\<open>Array.prototype.sort\<close> with a comparator: a stable sort; \<open>a\<close> stays before
  \<open>b\<close> unless the comparator puts \<open>b\<close> strictly first.\<close>

fun insert_by :: "('a \<Rightarrow> 'a \<Rightarrow> real) \<Rightarrow> 'a \<Rightarrow> 'a list \<Rightarrow> 'a list" where
  "insert_by cmp x [] = [x]"
| "insert_by cmp x (y # ys) = (if cmp x y \<le> 0 then x # y # ys else y # insert_by cmp x ys)"

definition array_sort :: "('a \<Rightarrow> 'a \<Rightarrow> real) \<Rightarrow> 'a list \<Rightarrow> 'a list" where
  "array_sort cmp xs = foldr (insert_by cmp) xs []"

definition score_or_0 :: "SearchResult \<Rightarrow> real" where
  \<comment> \<open>\<open>r.score || 0\<close>\<close>
  "score_or_0 r = (case score r of None \<Rightarrow> 0 | Some s \<Rightarrow> s)"

definition by_score_desc :: "SearchResult \<Rightarrow> SearchResult \<Rightarrow> real" where
  \<comment> \<open>line 267: \<open>(a, b) => (b.score || 0) - (a.score || 0)\<close>\<close>
  "by_score_desc a b = score_or_0 b - score_or_0 a"

text \<open>The fallback of \<open>searchEvents\<close> (lines 188 to 270: the regex search,
  scoring and sorting), with the call it makes to the store.\<close>

definition regexSearch ::
  "database \<Rightarrow> string \<Rightarrow> string \<Rightarrow> string list \<Rightarrow> (error + SearchResult list) \<times> db_call list" where
  "regexSearch db language cleanQuery queryWords =
     (case find_docs db language (searchQuery cleanQuery queryWords) of
        Inl e \<Rightarrow> Inl e
      | Inr results \<Rightarrow>
          Inr (array_sort by_score_desc (map (with_score cleanQuery queryWords) results)),
      [Find language (searchQuery cleanQuery queryWords)])"

definition searchEvents ::
  "database \<Rightarrow> string \<Rightarrow> string \<Rightarrow> (error + SearchResult list) \<times> db_call list" where
  "searchEvents db query language =
     (case connect_failure db of
        Some m \<Rightarrow> (Inl (ConnectFailed m), [Connect])
      | None \<Rightarrow>
          if \<not> (has_collection language \<or> inherited_key language)
          then (Inl (InvalidLanguage language), [Connect])
          else if \<not> has_collection language then (Inl NotAFunction, [Connect])
          else
            let cleanQuery = cleanQuery_of query;
                queryWords = queryWords_of cleanQuery;
                fallback = regexSearch db language cleanQuery queryWords
            in if length queryWords \<le> 2 \<and> length cleanQuery > 2 then
                 (case text_index db language cleanQuery of
                    Inr textResults \<Rightarrow>
                      if length textResults > 0
                      then (Inr textResults, [Connect, TextSearch language cleanQuery])
                      else (fst fallback, [Connect, TextSearch language cleanQuery] @ snd fallback)
                  | Inl m \<Rightarrow>
                      (fst fallback, [Connect, TextSearch language cleanQuery] @ snd fallback))
               else (fst fallback, Connect # snd fallback))"

section \<open>The search route\<close>

text \<open>\<open>GET\<close> of \<open>app/api/historical-events/search/route.ts\<close> (lines 4 to 36).\<close>

record request =
  q_param :: "string option"
  language_param :: "string option"

datatype json_body = ErrorBody string | SuccessBody "SearchResult list"

record response =
  status :: nat
  body :: json_body

definition param_or :: "string option \<Rightarrow> string \<Rightarrow> string" where
  \<comment> \<open>\<open>searchParams.get(name) || dflt\<close>\<close>
  "param_or p dflt = (case p of None \<Rightarrow> dflt | Some s \<Rightarrow> if s = [] then dflt else s)"

definition GET :: "database \<Rightarrow> request \<Rightarrow> response \<times> db_call list" where
  "GET db req =
     (let query = param_or (q_param req) [];
          language = param_or (language_param req) ''ar''
      in if trim query = [] then
           (\<lparr>status = 400, body = ErrorBody ''Query parameter 'q' is required''\<rparr>, [])
         else
           (case searchEvents db query language of
              (Inr evs, calls) \<Rightarrow> (\<lparr>status = 200, body = SuccessBody evs\<rparr>, calls)
            | (Inl e, calls) \<Rightarrow> (\<lparr>status = 500, body = ErrorBody (error_message e)\<rparr>, calls)))"

section \<open>Notions the statements use\<close>

definition plain_word :: "string \<Rightarrow> bool" where
  "plain_word w = list_all (\<lambda>c. c \<notin> escape_set) w"

definition contains_ci :: "string \<Rightarrow> string \<Rightarrow> bool" where
  "contains_ci v w = str_includes (toLowerCase v) (toLowerCase w)"

definition all_values :: "SearchResult \<Rightarrow> string list" where
  \<comment> \<open>the values of the five searched paths of a document\<close>
  "all_values d = concat (map (\<lambda>f. field_values f d) all_fields)"

definition exact_match :: "string \<Rightarrow> SearchResult \<Rightarrow> bool" where
  "exact_match cleanQuery d = list_ex (\<lambda>v. contains_ci v cleanQuery) (all_values d)"

definition words_match :: "string list \<Rightarrow> SearchResult \<Rightarrow> bool" where
  "words_match queryWords d =
     list_all (\<lambda>word. list_ex (\<lambda>v. contains_ci v word) (all_values d)) queryWords"

definition tier2_condition :: "string \<Rightarrow> string list \<Rightarrow> SearchResult \<Rightarrow> bool" where
  "tier2_condition cleanQuery queryWords d =
     ((length cleanQuery > 2 \<and> exact_match cleanQuery d) \<or>
      (length queryWords > 1 \<and> words_match queryWords d))"

fun is_text_search :: "db_call \<Rightarrow> bool" where
  "is_text_search (TextSearch l q) = True"
| "is_text_search c = False"

fun is_find :: "db_call \<Rightarrow> bool" where
  "is_find (Find l q) = True"
| "is_find c = False"

definition score_desc :: "SearchResult list \<Rightarrow> bool" where
  "score_desc rs = sorted_wrt (\<lambda>a b. score_or_0 a \<ge> score_or_0 b) rs"

section \<open>Example data\<close>

definition roman_doc :: SearchResult where
  "roman_doc = \<lparr>doc_id = ''1'', big_event_name = ''Roman Invasion of Mauretania'',
     events = [\<lparr>event_name = ''Roman invasion'', article_title = ''The Romans'',
        sections = [\<lparr>subtitle = ''Background'',
          paragraphs = [\<lparr>paragraph_text = ''Romans invaded in 44.''\<rparr>]\<rparr>]\<rparr>],
     score = None\<rparr>"

definition idrisid_doc :: SearchResult where
  "idrisid_doc = \<lparr>doc_id = ''2'', big_event_name = ''Idrisid dynasty'', events = [],
     score = None\<rparr>"

definition example_db :: database where
  "example_db = \<lparr>connect_failure = None,
     articles = (\<lambda>l. if l = ''en'' then [roman_doc, idrisid_doc] else []),
     text_index = (\<lambda>l q. Inr []),
     store_failure = None,
     regex_engine_of = (\<lambda>p. None)\<rparr>"

definition saadi_doc :: SearchResult where
  "saadi_doc = \<lparr>doc_id = ''3'', big_event_name = ''Saadi dynasty'', events = [],
     score = None\<rparr>"

definition three_doc_db :: database where
  "three_doc_db = example_db\<lparr>articles :=
     (\<lambda>l. if l = ''en'' then [idrisid_doc, roman_doc, saadi_doc] else [])\<rparr>"

definition indexed_db :: database where
  "indexed_db = example_db\<lparr>text_index :=
     (\<lambda>l q. if q = ''roman'' then Inr [roman_doc\<lparr>score := Some (3 / 2)\<rparr>] else Inr [])\<rparr>"

definition failing_index_db :: database where
  "failing_index_db = example_db\<lparr>text_index :=
     (\<lambda>l q. Inl ''text index required for $text query'')\<rparr>"

definition punic_doc :: SearchResult where
  "punic_doc = roman_doc\<lparr>big_event_name := ''Punic wars''\<rparr>"

section \<open>The article structurer\<close>

text \<open>
  Modelled from the spec: the script of Stage 3 (\<open>Phase3_structure_article.py\<close>,
  the operation \<open>structure(draft, sourceCatalogLookup)\<close>) is not among the
  sources; the definitions of this section follow section 4.1 of the
  specification, step by step. The event name of a structured article is a key
  that the caller supplies; the specification does not compute it and it is not
  modelled.
\<close>

datatype origin_type = PrimaryPage | LinkedPdf | Other

record Source =
  sourceId :: string
  url :: string
  originType :: origin_type
  languageSection :: "string option"
  extra :: "(string \<times> string) list"

record ArticleDraft =
  title :: string
  rawText :: string
  orderedSourceIds :: "string list"

record Paragraph =
  paragraphId :: string
  para_text :: string
  sourceIds :: "string list"

record Section =
  sec_subtitle :: string
  sec_paragraphs :: "Paragraph list"

record StructuredArticle =
  articleTitle :: string
  sa_sections :: "Section list"
  sourceList :: "Source list"

datatype warning =
    DanglingCitation string nat
  | MalformedMarker string
  | UnresolvedSource string

datatype structure_error = InvalidInput

subsection \<open>Citation markers\<close>

text \<open>
  Modelled from the spec: a citation marker is an opening bracket, one or more
  integers separated by commas and spaces, and a closing bracket (\<open>[3]\<close>,
  \<open>[1, 4]\<close>). The scan is the finite-state scan that the design notes of the
  specification ask for: outside a marker, or inside one (before the first
  digit, in a number, after a separator). A bracket that does not open a marker
  is kept as text and recorded as malformed.
\<close>

datatype token = Chr char | Marker "nat list" | Malformed

datatype marker_state = MStart | MNum | MSep

definition is_digit :: "char \<Rightarrow> bool" where
  "is_digit c = (let n = (of_char c :: nat) in 48 \<le> n \<and> n \<le> 57)"

definition digit_value :: "char \<Rightarrow> nat" where
  "digit_value c = of_char c - 48"

definition is_separator :: "char \<Rightarrow> bool" where
  "is_separator c = (c = CHR '','' \<or> c = CHR '' '')"

definition line_feed :: char where
  "line_feed = CHR 0x0A"

fun flush :: "string \<Rightarrow> token list" where
  "flush raw = Malformed # map Chr (rev raw)"

fun scan_text :: "string \<Rightarrow> token list"
  and scan_marker :: "marker_state \<Rightarrow> nat list \<Rightarrow> nat \<Rightarrow> string \<Rightarrow> string \<Rightarrow> token list" where
  "scan_text [] = []"
| "scan_text (c # cs) =
     (if c = CHR ''['' then scan_marker MStart [] 0 [c] cs else Chr c # scan_text cs)"
| "scan_marker st nums cur raw [] = flush raw"
| "scan_marker st nums cur raw (c # cs) =
     (if is_digit c then scan_marker MNum nums (10 * cur + digit_value c) (c # raw) cs
      else if is_separator c \<and> st = MNum then scan_marker MSep (nums @ [cur]) 0 (c # raw) cs
      else if is_separator c \<and> st = MSep then scan_marker MSep nums 0 (c # raw) cs
      else if c = CHR '']'' \<and> st = MNum then Marker (nums @ [cur]) # scan_text cs
      else if c = CHR ''['' then flush raw @ scan_marker MStart [] 0 [c] cs
      else flush raw @ Chr c # scan_text cs)"

fun token_numbers :: "token \<Rightarrow> nat list" where
  "token_numbers (Marker ns) = ns"
| "token_numbers t = []"

fun token_chars :: "token \<Rightarrow> string" where
  "token_chars (Chr c) = [c]"
| "token_chars t = []"

definition citation_numbers :: "string \<Rightarrow> nat list" where
  "citation_numbers s = concat (map token_numbers (scan_text s))"

definition malformed_count :: "string \<Rightarrow> nat" where
  "malformed_count s = length (filter (\<lambda>t. t = Malformed) (scan_text s))"

text \<open>Modelled from the spec (step 5): the markers are removed and white space
  is normalised to single spaces.\<close>

fun collapse_spaces :: "bool \<Rightarrow> string \<Rightarrow> string" where
  "collapse_spaces pending [] = []"
| "collapse_spaces pending (c # cs) =
     (if is_space c then collapse_spaces True cs
      else (if pending then [CHR '' ''] else []) @ c # collapse_spaces False cs)"

definition strip_markers :: "string \<Rightarrow> string" where
  "strip_markers s = collapse_spaces False (trim (concat (map token_chars (scan_text s))))"

subsection \<open>Lines, sections and paragraphs\<close>

fun split_lines :: "string \<Rightarrow> string \<Rightarrow> string list" where
  "split_lines cur [] = [rev cur]"
| "split_lines cur (c # cs) =
     (if c = line_feed then rev cur # split_lines [] cs else split_lines (c # cur) cs)"

fun join_lines :: "string list \<Rightarrow> string" where
  "join_lines [] = []"
| "join_lines [l] = l"
| "join_lines (l # m # ls) = l @ line_feed # join_lines (m # ls)"

text \<open>
  Modelled from the spec (steps 1 and 2): a line that begins with \<open>##\<close> starts a
  section; a line that begins with a single \<open>#\<close> gives the title the first
  time and starts a section afterwards; within a section the runs of
  consecutive non-empty lines, separated by blank lines, are the paragraphs.
\<close>

definition is_heading :: "string \<Rightarrow> bool" where
  "is_heading l = starts_with l ''#''"

definition is_section_heading :: "string \<Rightarrow> bool" where
  "is_section_heading l = starts_with l ''##''"

definition heading_text :: "string \<Rightarrow> string" where
  "heading_text l = trim (dropWhile (\<lambda>c. c = CHR ''#'') l)"

definition is_blank :: "string \<Rightarrow> bool" where
  "is_blank l = list_all is_space l"

datatype item = SectionStart string | ParaLine string | Break

fun items_of :: "bool \<Rightarrow> string list \<Rightarrow> item list" where
  "items_of titled [] = []"
| "items_of titled (l # ls) =
     (if is_section_heading l then SectionStart (heading_text l) # items_of titled ls
      else if is_heading l then
        (if titled then SectionStart (heading_text l) # items_of titled ls
         else Break # items_of True ls)
      else if is_blank l then Break # items_of titled ls
      else ParaLine l # items_of titled ls)"

definition first_title :: "string list \<Rightarrow> string option" where
  "first_title ls =
     (case filter (\<lambda>l. is_heading l \<and> \<not> is_section_heading l) ls of
        [] \<Rightarrow> None
      | l # rest \<Rightarrow> Some (heading_text l))"

definition close_block :: "string list \<Rightarrow> string list list" where
  "close_block cur = (if cur = [] then [] else [rev cur])"

fun blocks :: "string list \<Rightarrow> item list \<Rightarrow> string list list" where
  "blocks cur [] = close_block cur"
| "blocks cur (ParaLine l # its) = blocks (l # cur) its"
| "blocks cur (Break # its) = close_block cur @ blocks [] its"
| "blocks cur (SectionStart s # its) = close_block cur"

fun sections_of :: "item list \<Rightarrow> (string \<times> string list list) list" where
  "sections_of [] = []"
| "sections_of (SectionStart s # its) = (s, blocks [] its) # sections_of its"
| "sections_of (it # its) = sections_of its"

definition all_sections :: "item list \<Rightarrow> (string \<times> string list list) list" where
  \<comment> \<open>text before the first section heading is an implicit section with an empty subtitle\<close>
  "all_sections its =
     (if blocks [] its = [] then [] else [([], blocks [] its)]) @ sections_of its"

subsection \<open>Paragraph identifiers and sources\<close>

fun show_nat :: "nat \<Rightarrow> string" where
  "show_nat n =
     (if n < 10 then [char_of (48 + n)]
      else show_nat (n div 10) @ [char_of (48 + n mod 10)])"

declare show_nat.simps [simp del]

definition paragraph_id :: "nat \<Rightarrow> nat \<Rightarrow> string" where
  "paragraph_id i j = ''s'' @ show_nat i @ ''_p'' @ show_nat j"

definition in_range :: "string list \<Rightarrow> nat \<Rightarrow> bool" where
  "in_range ids n = (1 \<le> n \<and> n \<le> length ids)"

definition resolve :: "string list \<Rightarrow> nat list \<Rightarrow> string list" where
  "resolve ids ns = remdups (map (\<lambda>n. ids ! (n - 1)) (filter (in_range ids) ns))"

definition make_paragraph :: "string list \<Rightarrow> nat \<Rightarrow> nat \<Rightarrow> string list \<Rightarrow> Paragraph" where
  "make_paragraph ids i j block =
     \<lparr>paragraphId = paragraph_id i j,
      para_text = strip_markers (join_lines block),
      sourceIds = resolve ids (citation_numbers (join_lines block))\<rparr>"

definition paragraph_warnings :: "string list \<Rightarrow> nat \<Rightarrow> nat \<Rightarrow> string list \<Rightarrow> warning list" where
  "paragraph_warnings ids i j block =
     map (DanglingCitation (paragraph_id i j))
       (filter (\<lambda>n. \<not> in_range ids n) (citation_numbers (join_lines block))) @
     replicate (malformed_count (join_lines block)) (MalformedMarker (paragraph_id i j))"

definition make_section :: "string list \<Rightarrow> nat \<Rightarrow> string \<times> string list list \<Rightarrow> Section" where
  "make_section ids i sec =
     \<lparr>sec_subtitle = fst sec,
      sec_paragraphs = map (\<lambda>(j, block). make_paragraph ids i j block)
        (zip [1..<Suc (length (snd sec))] (snd sec))\<rparr>"

definition section_warnings :: "string list \<Rightarrow> nat \<Rightarrow> string \<times> string list list \<Rightarrow> warning list" where
  "section_warnings ids i sec =
     concat (map (\<lambda>(j, block). paragraph_warnings ids i j block)
       (zip [1..<Suc (length (snd sec))] (snd sec)))"

definition cited_ids :: "Section list \<Rightarrow> string list" where
  "cited_ids secs = remdups (concat (map sourceIds (concat (map sec_paragraphs secs))))"

definition structure_article ::
  "ArticleDraft option \<Rightarrow> (string \<Rightarrow> Source option) \<Rightarrow>
     structure_error + (StructuredArticle \<times> warning list)" where
  \<comment> \<open>Modelled from the spec: \<open>structure(draft, sourceCatalogLookup)\<close> of section 4.1,
      steps 1 to 7, with the warnings it accumulates; an absent draft is the only
      failure.\<close>
  "structure_article draft sourceCatalogLookup =
     (case draft of
        None \<Rightarrow> Inl InvalidInput
      | Some d \<Rightarrow>
          let ls = split_lines [] (rawText d);
              raw_sections = all_sections (items_of False ls);
              numbered = zip [1..<Suc (length raw_sections)] raw_sections;
              secs = map (\<lambda>(i, sec). make_section (orderedSourceIds d) i sec) numbered;
              cited = cited_ids secs
          in Inr
             (\<lparr>articleTitle = (case first_title ls of None \<Rightarrow> title d | Some t \<Rightarrow> t),
               sa_sections = secs,
               sourceList = concat (map (\<lambda>sid. case sourceCatalogLookup sid of
                                           None \<Rightarrow> [] | Some src \<Rightarrow> [src]) cited)\<rparr>,
              concat (map (\<lambda>(i, sec). section_warnings (orderedSourceIds d) i sec) numbered) @
              concat (map (\<lambda>sid. case sourceCatalogLookup sid of
                             None \<Rightarrow> [UnresolvedSource sid] | Some src \<Rightarrow> []) cited)))"

text \<open>Notions for the properties of the structurer.\<close>

definition all_paragraphs :: "StructuredArticle \<Rightarrow> Paragraph list" where
  "all_paragraphs a = concat (map sec_paragraphs (sa_sections a))"

definition paragraph_sources :: "StructuredArticle \<Rightarrow> string set" where
  \<comment> \<open>the union of \<open>sourceIds\<close> over all paragraphs\<close>
  "paragraph_sources a = set (concat (map sourceIds (all_paragraphs a)))"

definition referenced_sources :: "string list \<Rightarrow> string \<Rightarrow> string set" where
  \<comment> \<open>the entries of the ordered list that some marker of the text refers to\<close>
  "referenced_sources ids s =
     set (map (\<lambda>n. ids ! (n - 1)) (filter (in_range ids) (citation_numbers s)))"

definition markers_in_range :: "ArticleDraft \<Rightarrow> bool" where
  "markers_in_range d = list_all (in_range (orderedSourceIds d)) (citation_numbers (rawText d))"

definition para_lines :: "item list \<Rightarrow> string list" where
  "para_lines its = concat (map (\<lambda>it. case it of ParaLine l \<Rightarrow> [l] | _ \<Rightarrow> []) its)"

fun is_section_start :: "item \<Rightarrow> bool" where
  "is_section_start (SectionStart s) = True"
| "is_section_start it = False"

definition body_text :: "string \<Rightarrow> string" where
  \<comment> \<open>the text without its heading lines\<close>
  "body_text s = join_lines (filter (\<lambda>l. \<not> is_heading l) (split_lines [] s))"

definition roman_draft :: ArticleDraft where
  "roman_draft = \<lparr>title = ''Romans'',
     rawText = ''# Title'' @ [line_feed] @ ''## Background'' @ [line_feed] @
       ''Romans invaded in 44.[1] Local tribes resisted.[2, 1]'',
     orderedSourceIds = [''src-A'', ''src-B'']\<rparr>"

definition heading_cited_draft :: ArticleDraft where
  "heading_cited_draft = \<lparr>title = ''Romans'',
     rawText = ''## Background [1]'' @ [line_feed] @ ''Romans invaded in 44.'',
     orderedSourceIds = [''src-A'']\<rparr>"

definition no_catalog :: "string \<Rightarrow> Source option" where
  "no_catalog sid = None"

definition roman_catalog :: "string \<Rightarrow> Source option" where
  "roman_catalog sid =
     (if sid = ''src-A''
      then Some \<lparr>sourceId = ''src-A'', url = ''https://example.org/a'',
                 originType = PrimaryPage, languageSection = None, extra = []\<rparr>
      else None)"

definition roman_article :: StructuredArticle where
  "roman_article =
     \<lparr>articleTitle = ''Title'',
      sa_sections = [\<lparr>sec_subtitle = ''Background'',
        sec_paragraphs = [\<lparr>paragraphId = ''s1_p1'',
          para_text = ''Romans invaded in 44. Local tribes resisted.'',
          sourceIds = [''src-B'', ''src-A'']\<rparr>]\<rparr>],
      sourceList = [\<lparr>sourceId = ''src-A'', url = ''https://example.org/a'',
                 originType = PrimaryPage, languageSection = None, extra = []\<rparr>]\<rparr>"

definition heading_cited_article :: StructuredArticle where
  "heading_cited_article =
     \<lparr>articleTitle = ''Romans'',
      sa_sections = [\<lparr>sec_subtitle = ''Background [1]'',
        sec_paragraphs = [\<lparr>paragraphId = ''s1_p1'',
          para_text = ''Romans invaded in 44.'',
          sourceIds = []\<rparr>]\<rparr>],
      sourceList = []\<rparr>"

section \<open>Facts about strings and patterns\<close>

lemma str_includes_Nil [simp]: "str_includes t []"
  by (cases t) simp_all

lemma starts_with_map: "starts_with t p \<Longrightarrow> starts_with (map f t) (map f p)"
  by (induction t p rule: starts_with.induct) auto

lemma str_includes_map: "str_includes t p \<Longrightarrow> str_includes (map f t) (map f p)"
  by (induction t) (auto dest: starts_with_map [where f = f])

lemma of_char_lt_256: "(of_char c :: nat) < 256"
  by (simp add: of_char_def) 

lemma lower_char_idem [simp]: "lower_char (lower_char c) = lower_char c"
  using of_char_lt_256 [of c]
  by (auto simp: lower_char_def Let_def)

lemma toLowerCase_idem [simp]: "toLowerCase (toLowerCase s) = toLowerCase s"
  by (simp add: toLowerCase_def)

lemma atoms_prefix_Lit:
  "atoms_prefix (map Lit w) t = starts_with (toLowerCase t) (toLowerCase w)"
  by (induction "toLowerCase t" "toLowerCase w" arbitrary: t w rule: starts_with.induct)
     (auto simp: toLowerCase_def)

lemma atoms_search_Lit:
  "atoms_search (map Lit w) t = str_includes (toLowerCase t) (toLowerCase w)"
  by (induction t) (auto simp: atoms_prefix_Lit toLowerCase_def)

lemma backslash_not_alnum [simp]: "\<not> is_alnum backslash"
  by (simp add: is_alnum_def backslash_def)

lemma escape_set_not_alnum: "c \<in> escape_set \<Longrightarrow> \<not> is_alnum c"
  by (auto simp: escape_set_def other_meta_chars_def is_alnum_def backslash_def)

lemma scan_pattern_escape: "scan_pattern (escapeRegExp q) = Atoms (map Lit q)"
proof (induction q)
  case Nil
  show ?case by (simp add: escapeRegExp_def)
next
  case (Cons c q)
  have tl: "scan_pattern (concat (map (\<lambda>c. if c \<in> escape_set then [backslash, c] else [c]) q))
      = Atoms (map Lit q)"
    using Cons.IH by (simp add: escapeRegExp_def)
  show ?case
  proof (cases "c \<in> escape_set")
    case True
    then show ?thesis
      using tl escape_set_not_alnum [OF True]
      by (simp add: escapeRegExp_def cons_atom_def)
  next
    case False
    then have "c \<noteq> backslash" "c \<noteq> CHR ''.''" "c \<notin> other_meta_chars"
      by (auto simp: escape_set_def)
    then show ?thesis
      using tl False by (simp add: escapeRegExp_def cons_atom_def)
  qed
qed

lemma quantifier_in_escape_set: "c \<in> quantifier_chars \<Longrightarrow> c \<in> escape_set"
  by (auto simp: quantifier_chars_def escape_set_def other_meta_chars_def)

lemma backslash_not_quantifier [simp]: "backslash \<notin> quantifier_chars"
  by (simp add: quantifier_chars_def backslash_def)

lemma classify_pattern_escape: "classify_pattern (escapeRegExp q) = Atoms (map Lit q)"
proof (cases q)
  case Nil
  then show ?thesis by (simp add: classify_pattern_def escapeRegExp_def)
next
  case (Cons c cs)
  have hd: "\<exists>x xs. escapeRegExp q = x # xs \<and> x \<notin> quantifier_chars"
    using Cons quantifier_in_escape_set [of c]
    by (auto simp: escapeRegExp_def)
  then obtain x xs where e: "escapeRegExp q = x # xs" and x: "x \<notin> quantifier_chars"
    by blast
  have "classify_pattern (escapeRegExp q) = scan_pattern (escapeRegExp q)"
    using x by (simp add: classify_pattern_def e)
  then show ?thesis by (simp add: scan_pattern_escape)
qed

lemma escapeRegExp_plain: "plain_word w \<Longrightarrow> escapeRegExp w = w"
  by (induction w) (auto simp: plain_word_def escapeRegExp_def)

lemma classify_pattern_plain: "plain_word w \<Longrightarrow> classify_pattern w = Atoms (map Lit w)"
  using classify_pattern_escape [of w] by (simp add: escapeRegExp_plain)

lemma atoms_search_Lit_fun: "atoms_search (map Lit w) = (\<lambda>v. contains_ci v w)"
  by (rule ext) (simp add: atoms_search_Lit contains_ci_def)

lemma regex_compile_escape:
  "regex_compile engine (escapeRegExp q) = Some (\<lambda>v. contains_ci v q)"
  by (simp add: regex_compile_def classify_pattern_escape atoms_search_Lit_fun)

lemma query_matches_escaped:
  "query_matches engine (Regex f (escapeRegExp q)) d = list_ex (\<lambda>v. contains_ci v q) (field_values f d)"
  by (simp add: regex_compile_escape)

lemma query_matches_plain:
  "plain_word w \<Longrightarrow>
   query_matches engine (Regex f w) d = list_ex (\<lambda>v. contains_ci v w) (field_values f d)"
  using query_matches_escaped [of engine f w d] by (simp add: escapeRegExp_plain)

lemma query_valid_escaped [simp]: "query_valid engine (Regex f (escapeRegExp q))"
  by (simp add: regex_compile_escape)

lemma query_valid_plain: "plain_word w \<Longrightarrow> query_valid engine (Regex f w)"
  using query_valid_escaped [of engine f w] by (simp add: escapeRegExp_plain)

subsection \<open>Sorting\<close>

lemma mset_insert_by: "mset (insert_by cmp x ys) = add_mset x (mset ys)"
  by (induction ys) auto

lemma mset_array_sort: "mset (array_sort cmp xs) = mset xs"
  by (induction xs) (auto simp: array_sort_def mset_insert_by)

lemma set_insert_by: "set (insert_by cmp x ys) = insert x (set ys)"
  by (induction ys) auto

lemma score_desc_insert_by:
  "score_desc ys \<Longrightarrow> score_desc (insert_by by_score_desc x ys)"
  by (induction ys) (auto simp: score_desc_def set_insert_by by_score_desc_def)

lemma score_desc_array_sort: "score_desc (array_sort by_score_desc xs)"
  by (induction xs) (auto simp: array_sort_def score_desc_insert_by, simp add: score_desc_def)

lemma filter_insert_by:
  "filter (\<lambda>r. score_or_0 r = s) (insert_by by_score_desc x ys) =
   (if score_or_0 x = s then x # filter (\<lambda>r. score_or_0 r = s) ys
    else filter (\<lambda>r. score_or_0 r = s) ys)"
  by (induction ys) (auto simp: by_score_desc_def)

lemma filter_array_sort:
  "filter (\<lambda>r. score_or_0 r = s) (array_sort by_score_desc xs) = filter (\<lambda>r. score_or_0 r = s) xs"
  by (induction xs) (auto simp: array_sort_def filter_insert_by)

subsection \<open>The query of the fallback\<close>

lemma field_values_project [simp]: "field_values f (project d) = field_values f d"
  by (cases f) (simp_all add: project_def)

lemma query_matches_project [simp]:
  "query_matches engine q (project d) = query_matches engine q d"
  by (induction engine q d rule: query_matches.induct)
     (simp_all add: list_ex_iff list_all_iff split: option.splits)

lemma project_with_score [simp]: "project (with_score cq ws d) = project d"
  by (simp add: project_def with_score_def)

lemma list_ex_all_values:
  "list_ex (\<lambda>f. list_ex P (field_values f d)) all_fields = list_ex P (all_values d)"
  by (simp add: all_values_def list_ex_iff)

lemma exactPhrase_matches:
  "query_matches engine (exactPhraseCondition cq) d = exact_match cq d"
proof -
  have "query_matches engine (exactPhraseCondition cq) d =
        list_ex (\<lambda>f. query_matches engine (Regex f (escapeRegExp cq)) d) all_fields"
    by (simp add: exactPhraseCondition_def list_ex_iff)
  also have "\<dots> = list_ex (\<lambda>f. list_ex (\<lambda>v. contains_ci v cq) (field_values f d)) all_fields"
    by (simp only: query_matches_escaped)
  finally show ?thesis
    by (simp only: list_ex_all_values exact_match_def)
qed

lemma exactPhrase_valid [simp]: "query_valid engine (exactPhraseCondition cq)"
  by (simp add: exactPhraseCondition_def all_fields_def regex_compile_escape)

lemma word_or_matches:
  assumes "plain_word w"
  shows "query_matches engine (Or (map (\<lambda>f. Regex f w) all_fields)) d =
         list_ex (\<lambda>v. contains_ci v w) (all_values d)"
proof -
  have "query_matches engine (Or (map (\<lambda>f. Regex f w) all_fields)) d =
        list_ex (\<lambda>f. query_matches engine (Regex f w) d) all_fields"
    by (simp add: list_ex_iff)
  also have "\<dots> = list_ex (\<lambda>f. list_ex (\<lambda>v. contains_ci v w) (field_values f d)) all_fields"
    by (simp only: query_matches_plain [OF assms])
  finally show ?thesis
    by (simp only: list_ex_all_values)
qed

lemma wordConditions_match:
  assumes "list_all plain_word ws"
  shows "query_matches engine (And (wordConditions ws)) d = words_match ws d"
  using assms
  by (induction ws) (simp_all add: wordConditions_def words_match_def word_or_matches del: query_matches.simps(3))

lemma regex_compile_plain:
  "plain_word w \<Longrightarrow> regex_compile engine w = Some (\<lambda>v. contains_ci v w)"
  using regex_compile_escape [of engine w] by (simp add: escapeRegExp_plain)

lemma wordConditions_valid:
  assumes "list_all plain_word ws" "ws \<noteq> []"
  shows "query_valid engine (And (wordConditions ws))"
  using assms
  by (auto simp: wordConditions_def list_all_iff all_fields_def regex_compile_plain)

lemma query_matches_Or1: "query_matches engine (Or [a]) d = query_matches engine a d"
  by simp

lemma query_matches_Or2:
  "query_matches engine (Or [a, b]) d = (query_matches engine a d \<or> query_matches engine b d)"
  by simp

lemma searchQuery_valid:
  assumes "length ws \<le> 1 \<or> list_all plain_word ws"
  shows "query_valid engine (searchQuery cq ws)"
proof -
  have w: "length ws > 1 \<Longrightarrow> query_valid engine (And (wordConditions ws))"
    using wordConditions_valid [of ws engine] assms by (cases ws) simp_all
  have e: "query_valid engine (exactPhraseCondition cq)"
    by simp
  show ?thesis
    using w e by (simp add: searchQuery_def searchConditions_def del: query_valid.simps(4))
qed

lemma searchQuery_matches:
  assumes "length ws \<le> 1 \<or> list_all plain_word ws"
  shows "query_matches engine (searchQuery cq ws) d =
         ((length cq \<le> 2 \<and> length ws \<le> 1) \<or> tier2_condition cq ws d)"
proof -
  have w: "length ws > 1 \<Longrightarrow>
      query_matches engine (And (wordConditions ws)) d = words_match ws d"
    using wordConditions_match [of ws engine d] assms by simp
  note e = exactPhrase_matches [of engine cq d]
  consider (both) "length cq > 2" "length ws > 1"
    | (phrase) "length cq > 2" "\<not> length ws > 1"
    | (words) "\<not> length cq > 2" "length ws > 1"
    | (none) "\<not> length cq > 2" "\<not> length ws > 1"
    by blast
  then show ?thesis
  proof cases
    case both
    then have "searchQuery cq ws = Or [exactPhraseCondition cq, And (wordConditions ws)]"
      by (simp add: searchQuery_def searchConditions_def)
    then show ?thesis
      using both w by (simp only: query_matches_Or2 e tier2_condition_def) auto
  next
    case phrase
    then have "searchQuery cq ws = Or [exactPhraseCondition cq]"
      by (simp add: searchQuery_def searchConditions_def)
    then show ?thesis
      using phrase by (simp only: query_matches_Or1 e tier2_condition_def) auto
  next
    case words
    then have "searchQuery cq ws = Or [And (wordConditions ws)]"
      by (simp add: searchQuery_def searchConditions_def)
    then show ?thesis
      using words w by (simp only: query_matches_Or1 tier2_condition_def) auto
  next
    case none
    then have "searchQuery cq ws = MatchAll"
      by (simp add: searchQuery_def searchConditions_def)
    then show ?thesis
      using none by simp
  qed
qed

subsection \<open>The fallback search\<close>

lemma regexSearch_Inr:
  assumes "fst (regexSearch db l cq ws) = Inr results"
  shows "results = array_sort by_score_desc (map (with_score cq ws) (map project
           (filter (query_matches (regex_engine_of db) (searchQuery cq ws)) (articles db l))))"
  using assms
  by (auto simp: regexSearch_def find_docs_def split: option.splits if_splits)

lemma project_idem [simp]: "project (project d) = project d"
  by (simp add: project_def)

lemma map_project_scored:
  "map project (map (with_score cq ws) (map project ds)) = map project ds"
  by (induction ds) simp_all

lemma mset_project_regexSearch:
  assumes "fst (regexSearch db l cq ws) = Inr results"
  shows "mset (map project results) = mset (map project
           (filter (query_matches (regex_engine_of db) (searchQuery cq ws)) (articles db l)))"
proof -
  let ?found = "filter (query_matches (regex_engine_of db) (searchQuery cq ws)) (articles db l)"
  have "mset (map project results) =
        image_mset project (mset (array_sort by_score_desc (map (with_score cq ws) (map project ?found))))"
    using regexSearch_Inr [OF assms] by simp
  also have "\<dots> = mset (map project (map (with_score cq ws) (map project ?found)))"
    by (simp only: mset_array_sort mset_map)
  finally show ?thesis
    by (simp only: map_project_scored)
qed

lemma char_of_eq_iff_nat: "(char_of (n::nat) = c) = (n mod 256 = of_char c)"
  by (metis char_of_char of_char_of)

lemma eq_char_of_iff_nat: "(c = char_of (n::nat)) = (n mod 256 = of_char c)"
  by (metis char_of_char of_char_of)

lemmas eval_defs = char_of_eq_iff_nat eq_char_of_iff_nat GET_def param_or_def searchEvents_def regexSearch_def find_docs_def searchQuery_def searchConditions_def
  exactPhraseCondition_def wordConditions_def all_fields_def escapeRegExp_def escape_set_def
  other_meta_chars_def quantifier_chars_def backslash_def cleanQuery_of_def queryWords_of_def
  trim_def toLowerCase_def lower_char_def is_space_def has_collection_def example_db_def
  roman_doc_def idrisid_doc_def regex_compile_def classify_pattern_def cons_atom_def is_alnum_def
  project_def with_score_def doc_score_def event_score_def array_sort_def by_score_desc_def
  score_or_0_def tier2_condition_def exact_match_def words_match_def contains_ci_def all_values_def
  plain_word_def Let_def

lemmas example_defs = three_doc_db_def indexed_db_def failing_index_db_def punic_doc_def
  saadi_doc_def

lemma searchEvents_fallback:
  assumes "searchEvents db query language = (r, calls)" and "list_ex is_find calls"
  shows "r = fst (regexSearch db language (cleanQuery_of query)
                    (queryWords_of (cleanQuery_of query)))"
  using assms
  by (auto simp: searchEvents_def Let_def split: option.splits if_splits sum.splits)

section \<open>Properties of the search\<close>

text \<open>
  C3 (as amended). When \<open>searchEvents\<close> answers from the fallback, it returns
  exactly the documents of the collection that pass the filter of the
  fallback. When a condition applies (the clean query is longer than 2
  characters, or there is more than one word) and the words used as patterns
  contain no regular-expression metacharacter, these are the documents in which
  the clean query occurs in some searched field, ignoring case (query longer
  than 2), or in which every word occurs in some searched field, ignoring case
  (more than one word). When no condition applies (at most one word, at most 2
  characters), every document of the collection is returned.
\<close>

theorem tier2_result_documents:
  assumes "searchEvents db query language = (Inr results, calls)"
      and "list_ex is_find calls"
      and "cleanQuery = cleanQuery_of query"
      and "queryWords = queryWords_of cleanQuery"
      and "length queryWords \<le> 1 \<or> list_all plain_word queryWords"
  shows "mset (map project results) =
         mset (map project (filter
           (\<lambda>d. (length cleanQuery \<le> 2 \<and> length queryWords \<le> 1) \<or>
                tier2_condition cleanQuery queryWords d)
           (articles db language)))"
proof -
  have "fst (regexSearch db language cleanQuery queryWords) = Inr results"
    using searchEvents_fallback [OF assms(1,2)] assms(3,4) by simp
  from mset_project_regexSearch [OF this] show ?thesis
    by (simp add: searchQuery_matches [OF assms(5)])
qed

theorem tier2_result_documents_witness:
  "searchEvents example_db ''Roman  invasion'' ''en'' =
     (Inr [roman_doc\<lparr>score := Some 5\<rparr>],
      [Connect, TextSearch ''en'' ''roman  invasion'',
       Find ''en'' (searchQuery ''roman  invasion'' [''roman'', ''invasion''])]) \<and>
   list_ex is_find [Connect, TextSearch ''en'' ''roman  invasion'',
       Find ''en'' (searchQuery ''roman  invasion'' [''roman'', ''invasion''])] \<and>
   ''roman  invasion'' = cleanQuery_of ''Roman  invasion'' \<and>
   [''roman'', ''invasion''] = queryWords_of ''roman  invasion'' \<and>
   (length [''roman'', ''invasion''] \<le> 1 \<or> list_all plain_word [''roman'', ''invasion'']) \<and>
   \<not> exact_match ''roman  invasion'' roman_doc \<and>
   words_match [''roman'', ''invasion''] roman_doc \<and>
   mset (map project [roman_doc\<lparr>score := Some 5\<rparr>]) =
     mset (map project (filter
       (\<lambda>d. (length ''roman  invasion'' \<le> 2 \<and> length [''roman'', ''invasion''] \<le> 1) \<or>
            tier2_condition ''roman  invasion'' [''roman'', ''invasion''] d)
       (articles example_db ''en'')))"
proof -
  have h3: "''roman  invasion'' = cleanQuery_of ''Roman  invasion''"
    by (simp add: eval_defs)
  have h4: "[''roman'', ''invasion''] = queryWords_of ''roman  invasion''"
    by (simp add: eval_defs)
  have h1: "searchEvents example_db ''Roman  invasion'' ''en'' =
     (Inr [roman_doc\<lparr>score := Some 5\<rparr>],
      [Connect, TextSearch ''en'' ''roman  invasion'',
       Find ''en'' (searchQuery ''roman  invasion'' [''roman'', ''invasion''])])"
    by (simp add: eval_defs)
  have h2: "list_ex is_find [Connect, TextSearch ''en'' ''roman  invasion'',
       Find ''en'' (searchQuery ''roman  invasion'' [''roman'', ''invasion''])]"
    by simp
  have h5: "length [''roman'', ''invasion''] \<le> 1 \<or> list_all plain_word [''roman'', ''invasion'']"
    by (simp add: eval_defs)
  have m: "\<not> exact_match ''roman  invasion'' roman_doc" "words_match [''roman'', ''invasion''] roman_doc"
    by (simp_all add: eval_defs)
  show ?thesis
    using h1 h2 h3 h4 h5 m tier2_result_documents [OF h1 h2 h3 h4 h5] by simp
qed

theorem short_query_returns_unmatched_counterexample:
  "fst (searchEvents example_db ''zz'' ''en'') =
     Inr [roman_doc\<lparr>score := Some 0\<rparr>, idrisid_doc\<lparr>score := Some 0\<rparr>] \<and>
   \<not> tier2_condition (cleanQuery_of ''zz'') (queryWords_of (cleanQuery_of ''zz''))
       (idrisid_doc\<lparr>score := Some 0\<rparr>)"
  by (simp add: eval_defs)

text \<open>
  C7. A result that \<open>searchEvents\<close> returns from the fallback is sorted by
  score, highest first, and the results of any one score keep the order in
  which the scan of the collection returned them.
\<close>

theorem tier2_sorted_stable:
  assumes "searchEvents db query language = (Inr results, calls)"
      and "list_ex is_find calls"
      and "cleanQuery = cleanQuery_of query"
      and "queryWords = queryWords_of cleanQuery"
  shows "score_desc results \<and>
         (\<forall>s. filter (\<lambda>r. score_or_0 r = s) results =
              filter (\<lambda>r. score_or_0 r = s)
                (map (with_score cleanQuery queryWords) (map project
                  (filter (query_matches (regex_engine_of db) (searchQuery cleanQuery queryWords))
                     (articles db language)))))"
proof -
  have "fst (regexSearch db language cleanQuery queryWords) = Inr results"
    using searchEvents_fallback [OF assms(1,2)] assms(3,4) by simp
  from regexSearch_Inr [OF this] show ?thesis
    by (simp add: score_desc_array_sort filter_array_sort)
qed

theorem tier2_sorted_stable_witness:
  "searchEvents three_doc_db ''an'' ''en'' =
     (Inr [roman_doc\<lparr>score := Some 21\<rparr>, idrisid_doc\<lparr>score := Some 0\<rparr>,
           saadi_doc\<lparr>score := Some 0\<rparr>], [Connect, Find ''en'' MatchAll]) \<and>
   list_ex is_find [Connect, Find ''en'' MatchAll] \<and>
   ''an'' = cleanQuery_of ''an'' \<and> [''an''] = queryWords_of ''an'' \<and>
   articles three_doc_db ''en'' = [idrisid_doc, roman_doc, saadi_doc] \<and>
   score_desc [roman_doc\<lparr>score := Some 21\<rparr>, idrisid_doc\<lparr>score := Some 0\<rparr>,
          saadi_doc\<lparr>score := Some 0\<rparr>] \<and>
   filter (\<lambda>r. score_or_0 r = 0) [roman_doc\<lparr>score := Some 21\<rparr>, idrisid_doc\<lparr>score := Some 0\<rparr>,
          saadi_doc\<lparr>score := Some 0\<rparr>] =
     [idrisid_doc\<lparr>score := Some 0\<rparr>, saadi_doc\<lparr>score := Some 0\<rparr>]"
proof -
  have h1: "searchEvents three_doc_db ''an'' ''en'' =
     (Inr [roman_doc\<lparr>score := Some 21\<rparr>, idrisid_doc\<lparr>score := Some 0\<rparr>,
           saadi_doc\<lparr>score := Some 0\<rparr>], [Connect, Find ''en'' MatchAll])"
    by (simp add: eval_defs example_defs)
  have h2: "list_ex is_find [Connect, Find ''en'' MatchAll]"
    by simp
  have h3: "''an'' = cleanQuery_of ''an''" and h4: "[''an''] = queryWords_of ''an''"
    by (simp_all add: eval_defs)
  have a: "articles three_doc_db ''en'' = [idrisid_doc, roman_doc, saadi_doc]"
    by (simp add: eval_defs example_defs)
  have f: "filter (\<lambda>r. score_or_0 r = 0) [roman_doc\<lparr>score := Some 21\<rparr>,
       idrisid_doc\<lparr>score := Some 0\<rparr>, saadi_doc\<lparr>score := Some 0\<rparr>] =
     [idrisid_doc\<lparr>score := Some 0\<rparr>, saadi_doc\<lparr>score := Some 0\<rparr>]"
    by (simp add: score_or_0_def)
  show ?thesis
    using h1 h2 h3 h4 a f tier2_sorted_stable [OF h1 h2 h3 h4] by simp
qed

subsection \<open>Scores\<close>

lemma cleanQuery_lower [simp]: "toLowerCase (cleanQuery_of query) = cleanQuery_of query"
  by (simp add: cleanQuery_of_def)

lemma event_score_empty: "event_score [] e = 6"
  by (simp add: event_score_def)

lemma sum_event_score_empty: "sum_list (map (event_score []) es) = 6 * real (length es)"
  by (induction es) (simp_all add: event_score_empty algebra_simps)

lemma doc_score_empty: "doc_score [] [] d = 15 + 6 * real (length (events d))"
  by (simp add: doc_score_def sum_event_score_empty)

lemma trim_empty_clean: "trim query = [] \<Longrightarrow> cleanQuery_of query = []"
  by (simp add: cleanQuery_of_def toLowerCase_def)

lemma queryWords_empty [simp]: "queryWords_of [] = []"
  by (simp add: queryWords_of_def)

lemma searchQuery_empty [simp]: "searchQuery [] [] = MatchAll"
  by (simp add: searchQuery_def searchConditions_def)

lemma with_score_empty:
  "with_score [] [] (project d) = (project d)\<lparr>score := Some (15 + 6 * real (length (events d)))\<rparr>"
  by (simp add: with_score_def doc_score_empty project_def)

text \<open>
  C1 (as amended). For each of the four language partitions, with the store
  reachable, a query that is empty after trimming raises no error and skips the
  text search; the filter sent to the store is \<open>{}\<close>, so every document of the
  collection is returned (not an empty sequence), each with score
  15 + 6 * (number of its events), sorted by score, highest first.
\<close>

theorem searchEvents_empty_query:
  assumes "connect_failure db = None" and "store_failure db = None"
      and "has_collection language" and "trim query = []"
  shows "searchEvents db query language =
         (Inr (array_sort by_score_desc
                (map (\<lambda>d. (project d)\<lparr>score := Some (15 + 6 * real (length (events d)))\<rparr>)
                   (articles db language))),
          [Connect, Find language MatchAll])"
  using assms
  by (simp add: searchEvents_def trim_empty_clean regexSearch_def find_docs_def
        with_score_empty comp_def)

theorem searchEvents_empty_query_witness:
  "connect_failure example_db = None \<and> store_failure example_db = None \<and>
   has_collection ''en'' \<and> trim ''  '' = [] \<and>
   searchEvents example_db ''  '' ''en'' =
     (Inr [roman_doc\<lparr>score := Some 21\<rparr>, idrisid_doc\<lparr>score := Some 15\<rparr>],
      [Connect, Find ''en'' MatchAll])"
proof -
  have h: "connect_failure example_db = None" "store_failure example_db = None"
      "has_collection ''en''" "trim ''  '' = []"
    by (simp_all add: eval_defs)
  have s: "array_sort by_score_desc
             (map (\<lambda>d. (project d)\<lparr>score := Some (15 + 6 * real (length (events d)))\<rparr>)
                (articles example_db ''en'')) =
           [roman_doc\<lparr>score := Some 21\<rparr>, idrisid_doc\<lparr>score := Some 15\<rparr>]"
    by (simp add: eval_defs)
  show ?thesis
    using h s searchEvents_empty_query [OF h] by simp
qed

theorem empty_query_returns_documents_counterexample:
  "trim '''' = [] \<and>
   searchEvents example_db '''' ''en'' =
     (Inr [roman_doc\<lparr>score := Some 21\<rparr>, idrisid_doc\<lparr>score := Some 15\<rparr>],
      [Connect, Find ''en'' MatchAll]) \<and>
   fst (searchEvents example_db '''' ''en'') \<noteq> Inr []"
  by (simp add: eval_defs)

subsection \<open>The calls of searchEvents\<close>

lemma snd_regexSearch [simp]:
  "snd (regexSearch db language cq ws) = [Find language (searchQuery cq ws)]"
  by (simp add: regexSearch_def)

lemma regexSearch_text_index [simp]:
  "regexSearch (db\<lparr>text_index := t\<rparr>) language cq ws = regexSearch db language cq ws"
  by (simp add: regexSearch_def find_docs_def split: option.splits)

text \<open>
  C2. Once connected to a known partition, \<open>searchEvents\<close> sends a text search
  to the index exactly when the clean query has at most 2 words and more than 2
  characters (and then one, for the clean query); and when that search answers
  with at least one result, \<open>searchEvents\<close> returns these results as they are
  and sends no scan to the store.
\<close>

theorem tier1_gate_and_short_circuit:
  assumes "connect_failure db = None" and "has_collection language"
  shows "filter is_text_search (snd (searchEvents db query language)) =
           (if length (queryWords_of (cleanQuery_of query)) \<le> 2 \<and> length (cleanQuery_of query) > 2
            then [TextSearch language (cleanQuery_of query)] else []) \<and>
         (\<forall>textResults.
            length (queryWords_of (cleanQuery_of query)) \<le> 2 \<and> length (cleanQuery_of query) > 2 \<and>
            text_index db language (cleanQuery_of query) = Inr textResults \<and> length textResults > 0
            \<longrightarrow> searchEvents db query language =
                  (Inr textResults, [Connect, TextSearch language (cleanQuery_of query)]) \<and>
                filter is_find (snd (searchEvents db query language)) = [])"
  using assms
  by (auto simp: searchEvents_def Let_def split: sum.splits)

theorem tier1_gate_and_short_circuit_witness:
  "connect_failure indexed_db = None \<and> has_collection ''en'' \<and>
   length (queryWords_of (cleanQuery_of '' Roman '')) \<le> 2 \<and> length (cleanQuery_of '' Roman '') > 2 \<and>
   text_index indexed_db ''en'' (cleanQuery_of '' Roman '') = Inr [roman_doc\<lparr>score := Some (3 / 2)\<rparr>] \<and>
   searchEvents indexed_db '' Roman '' ''en'' =
     (Inr [roman_doc\<lparr>score := Some (3 / 2)\<rparr>], [Connect, TextSearch ''en'' ''roman'']) \<and>
   filter is_text_search (snd (searchEvents indexed_db ''The Rise of the Fatimids'' ''en'')) = []"
proof -
  have h: "connect_failure indexed_db = None" "has_collection ''en''"
    by (simp_all add: eval_defs example_defs)
  have c: "cleanQuery_of '' Roman '' = ''roman''" "queryWords_of ''roman'' = [''roman'']"
    by (simp_all add: eval_defs)
  have t: "text_index indexed_db ''en'' ''roman'' = Inr [roman_doc\<lparr>score := Some (3 / 2)\<rparr>]"
    by (simp add: eval_defs example_defs)
  have l: "\<not> length (queryWords_of (cleanQuery_of ''The Rise of the Fatimids'')) \<le> 2"
    by (simp add: eval_defs)
  show ?thesis
    using h c t l tier1_gate_and_short_circuit [OF h, of "'' Roman ''"]
      tier1_gate_and_short_circuit [OF h, of "''The Rise of the Fatimids''"]
    by simp
qed

text \<open>
  C6. When the text search of Tier 1 raises an error, \<open>searchEvents\<close> goes on to
  the fallback: its outcome is the outcome of the regex search, after the calls
  connect, text search, scan. The regex search does not read the text index, so
  nothing of the error reaches the caller.
\<close>

theorem tier1_error_falls_back:
  assumes "connect_failure db = None" and "has_collection language"
      and "length (queryWords_of (cleanQuery_of query)) \<le> 2"
      and "length (cleanQuery_of query) > 2"
      and "text_index db language (cleanQuery_of query) = Inl m"
  shows "searchEvents db query language =
           (fst (regexSearch db language (cleanQuery_of query) (queryWords_of (cleanQuery_of query))),
            [Connect, TextSearch language (cleanQuery_of query),
             Find language (searchQuery (cleanQuery_of query) (queryWords_of (cleanQuery_of query)))]) \<and>
         (\<forall>t. regexSearch (db\<lparr>text_index := t\<rparr>) language (cleanQuery_of query)
                 (queryWords_of (cleanQuery_of query)) =
              regexSearch db language (cleanQuery_of query) (queryWords_of (cleanQuery_of query)))"
  using assms
  by (simp add: searchEvents_def Let_def)

theorem tier1_error_falls_back_witness:
  "connect_failure failing_index_db = None \<and> has_collection ''en'' \<and>
   length (queryWords_of (cleanQuery_of ''Roman'')) \<le> 2 \<and> length (cleanQuery_of ''Roman'') > 2 \<and>
   text_index failing_index_db ''en'' (cleanQuery_of ''Roman'') =
     Inl ''text index required for $text query'' \<and>
   fst (searchEvents failing_index_db ''Roman'' ''en'') = Inr [roman_doc\<lparr>score := Some 21\<rparr>]"
proof -
  have h: "connect_failure failing_index_db = None" "has_collection ''en''"
      "length (queryWords_of (cleanQuery_of ''Roman'')) \<le> 2" "length (cleanQuery_of ''Roman'') > 2"
      "text_index failing_index_db ''en'' (cleanQuery_of ''Roman'') =
         Inl ''text index required for $text query''"
    by (simp_all add: eval_defs example_defs)
  have r: "fst (regexSearch failing_index_db ''en'' (cleanQuery_of ''Roman'')
             (queryWords_of (cleanQuery_of ''Roman''))) = Inr [roman_doc\<lparr>score := Some 21\<rparr>]"
    by (simp add: eval_defs example_defs)
  show ?thesis
    using h r tier1_error_falls_back [OF h] by simp
qed

subsection \<open>Scoring\<close>

lemma exact_match_name:
  "contains_ci (big_event_name d) cq \<Longrightarrow> exact_match cq d"
  by (simp add: exact_match_def all_values_def all_fields_def)

lemma doc_score_events_ge: "0 \<le> sum_list (map (event_score cq) es)"
  by (induction es) (simp_all add: event_score_def)

text \<open>
  C5. Let Q be the clean query of a search, D a document whose group name
  contains Q verbatim, and D' the same document under another group name, such
  that Q occurs in no searched field of D' (as the search reads fields: ignoring
  case). Then the fallback scores D strictly higher than D'.
\<close>

theorem score_monotone:
  assumes "cleanQuery = cleanQuery_of query"
      and "queryWords = queryWords_of cleanQuery"
      and "str_includes (big_event_name D) cleanQuery"
      and "D' = D\<lparr>big_event_name := name'\<rparr>"
      and "\<not> exact_match cleanQuery D'"
  shows "doc_score cleanQuery queryWords D' < doc_score cleanQuery queryWords D"
proof -
  have low: "toLowerCase cleanQuery = cleanQuery"
    using assms(1) by simp
  have "str_includes (toLowerCase (big_event_name D)) (toLowerCase cleanQuery)"
    using str_includes_map [OF assms(3), of lower_char] by (simp add: toLowerCase_def)
  then have inD: "str_includes (toLowerCase (big_event_name D)) cleanQuery"
    by (simp only: low)
  have "\<not> contains_ci (big_event_name D') cleanQuery"
    using assms(5) exact_match_name by blast
  then have notD': "\<not> str_includes (toLowerCase name') cleanQuery"
    using assms(4) by (simp add: contains_ci_def low)
  have ev: "events D' = events D"
    using assms(4) by simp
  have "doc_score cleanQuery queryWords D' \<le> 5 + sum_list (map (event_score cleanQuery) (events D))"
    using notD' assms(4) by (simp add: doc_score_def)
  moreover have "10 + sum_list (map (event_score cleanQuery) (events D)) \<le>
      doc_score cleanQuery queryWords D"
    using inD by (simp add: doc_score_def)
  ultimately show ?thesis
    by linarith
qed

theorem score_monotone_witness:
  "cleanQuery_of '' Mauretania'' = ''mauretania'' \<and>
   queryWords_of ''mauretania'' = [''mauretania''] \<and>
   str_includes (big_event_name (roman_doc\<lparr>big_event_name := ''Conquest of mauretania''\<rparr>)) ''mauretania'' \<and>
   \<not> exact_match ''mauretania'' punic_doc \<and>
   doc_score ''mauretania'' [''mauretania''] punic_doc
     < doc_score ''mauretania'' [''mauretania''] (roman_doc\<lparr>big_event_name := ''Conquest of mauretania''\<rparr>)"
proof -
  have h1: "''mauretania'' = cleanQuery_of '' Mauretania''"
    by (simp add: eval_defs)
  have h2: "[''mauretania''] = queryWords_of ''mauretania''"
    by (simp add: eval_defs)
  have h3: "str_includes (big_event_name (roman_doc\<lparr>big_event_name := ''Conquest of mauretania''\<rparr>))
      ''mauretania''"
    by (simp add: eval_defs)
  have h4: "punic_doc = (roman_doc\<lparr>big_event_name := ''Conquest of mauretania''\<rparr>)
      \<lparr>big_event_name := ''Punic wars''\<rparr>"
    by (simp add: eval_defs example_defs)
  have h5: "\<not> exact_match ''mauretania'' punic_doc"
    by (simp add: eval_defs example_defs)
  show ?thesis
    using h1 h2 h3 h5 score_monotone [OF h1 h2 h3 h4 h5] by simp
qed

subsection \<open>Escaping\<close>

text \<open>
  C9. The pattern of the exact-phrase conditions is the escaped clean query,
  and the store matches it as the literal string, ignoring case, whatever the
  query contains. The per-word conditions pass each word as it is. For the
  two-word query \<open>r.man inv\<close>, whose first word contains the metacharacter
  \<open>.\<close>, the per-word conditions accept a document in which the word
  \<open>r.man\<close> occurs nowhere: the word is matched as a pattern.
\<close>

theorem word_patterns_not_escaped:
  "(\<forall>engine f q d.
      query_matches engine (Regex f (escapeRegExp q)) d =
        list_ex (\<lambda>v. contains_ci v q) (field_values f d)) \<and>
   (\<forall>engine cq d. query_matches engine (exactPhraseCondition cq) d = exact_match cq d) \<and>
   (\<forall>ws. wordConditions ws = map (\<lambda>word. Or (map (\<lambda>f. Regex f word) all_fields)) ws) \<and>
   queryWords_of (cleanQuery_of ''r.man inv'') = [''r.man'', ''inv''] \<and>
   \<not> plain_word ''r.man'' \<and>
   query_matches (regex_engine_of example_db) (And (wordConditions [''r.man'', ''inv''])) roman_doc \<and>
   \<not> words_match [''r.man'', ''inv''] roman_doc \<and>
   \<not> exact_match ''r.man inv'' roman_doc \<and>
   fst (searchEvents example_db ''r.man inv'' ''en'') = Inr [roman_doc\<lparr>score := Some 0\<rparr>]"
proof -
  have a: "\<forall>engine f q d.
      query_matches engine (Regex f (escapeRegExp q)) d =
        list_ex (\<lambda>v. contains_ci v q) (field_values f d)"
    using query_matches_escaped by blast
  have b: "\<forall>engine cq d. query_matches engine (exactPhraseCondition cq) d = exact_match cq d"
    using exactPhrase_matches by blast
  have c: "\<forall>ws. wordConditions ws = map (\<lambda>word. Or (map (\<lambda>f. Regex f word) all_fields)) ws"
    by (simp add: wordConditions_def)
  have d: "queryWords_of (cleanQuery_of ''r.man inv'') = [''r.man'', ''inv'']"
    by (simp add: eval_defs)
  have e: "\<not> plain_word ''r.man''"
    by (simp add: eval_defs)
  have f: "query_matches (regex_engine_of example_db) (And (wordConditions [''r.man'', ''inv'']))
      roman_doc"
    by (simp add: eval_defs)
  have g: "\<not> words_match [''r.man'', ''inv''] roman_doc"
    by (simp add: eval_defs)
  have h: "\<not> exact_match ''r.man inv'' roman_doc"
    by (simp add: eval_defs)
  have i: "fst (searchEvents example_db ''r.man inv'' ''en'') = Inr [roman_doc\<lparr>score := Some 0\<rparr>]"
    by (simp add: eval_defs)
  show ?thesis
    using a b c d e f g h i by blast
qed

subsection \<open>The route\<close>

lemma trim_all_space:
  assumes "list_all is_space s"
  shows "trim s = []"
proof -
  have "dropWhile is_space s = []"
    using assms by (simp add: list_all_iff)
  then show ?thesis
    by (simp add: trim_def del: dropWhile_eq_Nil_conv)
qed

lemma searchEvents_calls_nonempty: "snd (searchEvents db query language) \<noteq> []"
  by (simp add: searchEvents_def Let_def split: option.splits sum.splits)

lemma GET_calls:
  "snd (GET db req) =
     (if trim (param_or (q_param req) []) = [] then []
      else snd (searchEvents db (param_or (q_param req) []) (param_or (language_param req) ''ar'')))"
  by (simp add: GET_def Let_def split: prod.splits sum.splits)

text \<open>
  C10. A request to the search route whose \<open>q\<close> parameter is missing, empty or
  made of white space only is answered with status 400 and an error body, and no
  call goes out: \<open>searchEvents\<close> is not invoked (an invocation always starts with
  a call). So whenever the route invokes \<open>searchEvents\<close>, the query it passes is
  not empty after trimming.
\<close>

theorem GET_blank_query_rejected:
  assumes "q_param req = None \<or> (\<exists>s. q_param req = Some s \<and> list_all is_space s)"
  shows "GET db req =
           (\<lparr>status = 400, body = ErrorBody ''Query parameter 'q' is required''\<rparr>, []) \<and>
         (\<forall>query language. snd (searchEvents db query language) \<noteq> []) \<and>
         (\<forall>r. snd (GET db r) \<noteq> [] \<longrightarrow>
              snd (GET db r) = snd (searchEvents db (param_or (q_param r) [])
                                      (param_or (language_param r) ''ar'')) \<and>
              trim (param_or (q_param r) []) \<noteq> [])"
proof -
  have "trim (param_or (q_param req) []) = []"
    using assms by (auto simp: param_or_def trim_all_space)
  then have "GET db req =
      (\<lparr>status = 400, body = ErrorBody ''Query parameter 'q' is required''\<rparr>, [])"
    by (simp add: GET_def)
  moreover have "\<forall>r. snd (GET db r) \<noteq> [] \<longrightarrow>
              snd (GET db r) = snd (searchEvents db (param_or (q_param r) [])
                                      (param_or (language_param r) ''ar'')) \<and>
              trim (param_or (q_param r) []) \<noteq> []"
    by (simp add: GET_calls)
  ultimately show ?thesis
    using searchEvents_calls_nonempty by blast
qed

theorem GET_blank_query_rejected_witness:
  "(q_param \<lparr>q_param = Some ''   '', language_param = Some ''en''\<rparr> = None \<or>
      list_all is_space ''   '') \<and>
   GET example_db \<lparr>q_param = Some ''   '', language_param = Some ''en''\<rparr> =
     (\<lparr>status = 400, body = ErrorBody ''Query parameter 'q' is required''\<rparr>, []) \<and>
   GET example_db \<lparr>q_param = None, language_param = None\<rparr> =
     (\<lparr>status = 400, body = ErrorBody ''Query parameter 'q' is required''\<rparr>, []) \<and>
   snd (GET example_db \<lparr>q_param = Some ''zz'', language_param = Some ''en''\<rparr>) =
     [Connect, Find ''en'' MatchAll]"
proof -
  have h1: "q_param \<lparr>q_param = Some ''   '', language_param = Some ''en''\<rparr> = None \<or>
      (\<exists>s. q_param \<lparr>q_param = Some ''   '', language_param = Some ''en''\<rparr> = Some s \<and>
           list_all is_space s)"
    by (simp add: is_space_def)
  have h2: "q_param \<lparr>q_param = None, language_param = None\<rparr> = None \<or>
      (\<exists>s. q_param \<lparr>q_param = None, language_param = None\<rparr> = Some s \<and> list_all is_space s)"
    by simp
  have s: "list_all is_space ''   ''"
    by (simp add: is_space_def)
  have c: "snd (GET example_db \<lparr>q_param = Some ''zz'', language_param = Some ''en''\<rparr>) =
     [Connect, Find ''en'' MatchAll]"
    by (simp add: eval_defs)
  show ?thesis
    using s c GET_blank_query_rejected [OF h1, of example_db]
      GET_blank_query_rejected [OF h2, of example_db]
    by simp
qed

text \<open>
  C8 at a failing input. The store is reachable and the partition exists; the
  four-word query skips the text search, the word \<open>*fatimids*\<close> goes to the store
  as a pattern, the store rejects it, and \<open>searchEvents\<close> fails.
\<close>

theorem invalid_word_pattern_fails:
  "connect_failure example_db = None \<and> store_failure example_db = None \<and>
   has_collection ''en'' \<and>
   queryWords_of (cleanQuery_of ''The rise of *Fatimids*'') =
     [''the'', ''rise'', ''of'', ''*fatimids*''] \<and>
   fst (searchEvents example_db ''The rise of *Fatimids*'' ''en'') = Inl InvalidQuery \<and>
   filter is_text_search (snd (searchEvents example_db ''The rise of *Fatimids*'' ''en'')) = []"
  by (simp add: eval_defs)

section \<open>Facts about the structurer\<close>

lemma line_feed_plain [simp]:
  "\<not> is_digit line_feed" "\<not> is_separator line_feed"
  "line_feed \<noteq> CHR '']''" "line_feed \<noteq> CHR ''[''"
  by (simp_all add: is_digit_def is_separator_def line_feed_def)

lemma scan_line_feed:
  "scan_text (a @ line_feed # b) = scan_text a @ Chr line_feed # scan_text b"
  "scan_marker st nums cur raw (a @ line_feed # b) =
     scan_marker st nums cur raw a @ Chr line_feed # scan_text b"
  by (induction a and st nums cur raw a rule: scan_text_scan_marker.induct) simp_all

lemma citation_numbers_line_feed:
  "citation_numbers (a @ line_feed # b) = citation_numbers a @ citation_numbers b"
  by (simp add: citation_numbers_def scan_line_feed)

lemma citation_numbers_Nil [simp]: "citation_numbers [] = []"
  by (simp add: citation_numbers_def)

lemma citation_numbers_join:
  "citation_numbers (join_lines ls) = concat (map citation_numbers ls)"
  by (induction ls rule: join_lines.induct) (simp_all add: citation_numbers_line_feed)

lemma scan_text_no_bracket:
  "CHR ''['' \<notin> set s \<Longrightarrow> scan_text s = map Chr s"
  by (induction s) auto

lemma citation_numbers_no_bracket:
  "CHR ''['' \<notin> set s \<Longrightarrow> citation_numbers s = []"
  by (simp add: citation_numbers_def scan_text_no_bracket comp_def)

lemma bracket_not_space [simp]: "\<not> is_space CHR ''[''"
  by (simp add: is_space_def)

lemma citation_numbers_blank: "is_blank l \<Longrightarrow> citation_numbers l = []"
  by (rule citation_numbers_no_bracket) (auto simp: is_blank_def list_all_iff)


subsection \<open>Sections and paragraphs\<close>

lemma para_lines_simps [simp]:
  "para_lines [] = []"
  "para_lines (ParaLine l # its) = l # para_lines its"
  "para_lines (Break # its) = para_lines its"
  "para_lines (SectionStart s # its) = para_lines its"
  by (simp_all add: para_lines_def)

lemma concat_close_block [simp]: "concat (close_block cur) = rev cur"
  by (simp add: close_block_def)

lemma concat_blocks:
  "concat (blocks cur its) = rev cur @ para_lines (takeWhile (\<lambda>it. \<not> is_section_start it) its)"
  by (induction cur its rule: blocks.induct) simp_all

lemma para_lines_split:
  "para_lines (takeWhile P its) @ para_lines (dropWhile P its) = para_lines its"
  by (simp add: para_lines_def flip: concat_append map_append)

lemma concat_sections_of:
  "concat (concat (map snd (sections_of its))) =
     para_lines (dropWhile (\<lambda>it. \<not> is_section_start it) its)"
  by (induction its rule: sections_of.induct) (simp_all add: concat_blocks para_lines_split)

lemma concat_all_sections:
  "concat (concat (map snd (all_sections its))) = para_lines its"
proof -
  have "concat (concat (map snd (all_sections its))) =
        concat (blocks [] its) @ concat (concat (map snd (sections_of its)))"
    by (simp add: all_sections_def)
  then show ?thesis
    by (simp add: concat_blocks concat_sections_of para_lines_split)
qed

lemma section_heading_is_heading: "is_section_heading l \<Longrightarrow> is_heading l"
  by (cases l) (simp_all add: is_section_heading_def is_heading_def)

lemma para_lines_items_of:
  "para_lines (items_of titled ls) = filter (\<lambda>l. \<not> is_heading l \<and> \<not> is_blank l) ls"
  by (induction titled ls rule: items_of.induct) (auto simp: section_heading_is_heading)

subsection \<open>The sources of the paragraphs\<close>

lemma map_zip_snd:
  "length js = length bs \<Longrightarrow> map (\<lambda>(j, b). g b) (zip js bs) = map g bs"
  by (induction js bs rule: list_induct2) simp_all

lemma map_numbered:
  "map (\<lambda>(j, b). g b) (zip [1..<Suc (length bs)] bs) = map g bs"
  by (rule map_zip_snd) (simp del: upt_Suc)

lemma set_concat_zip:
  assumes "length js = length xs" and "\<And>j x. set (h j x) = H x"
  shows "set (concat (map (\<lambda>(j, x). h j x) (zip js xs))) = (\<Union>x \<in> set xs. H x)"
  using assms by (induction js xs rule: list_induct2) auto

lemma sources_of_sections:
  "concat (map sourceIds (concat (map sec_paragraphs (map f zs)))) =
   concat (map (\<lambda>z. concat (map sourceIds (sec_paragraphs (f z)))) zs)"
  by (induction zs) simp_all

lemma set_resolve:
  "set (resolve ids ns) = (\<lambda>n. ids ! (n - 1)) ` {n \<in> set ns. in_range ids n}"
  by (auto simp: resolve_def)

lemma sourceIds_make_section:
  "map sourceIds (sec_paragraphs (make_section ids i sec)) =
     map (\<lambda>block. resolve ids (concat (map citation_numbers block))) (snd sec)"
proof -
  have "map sourceIds (sec_paragraphs (make_section ids i sec)) =
        map (\<lambda>(j, block). resolve ids (concat (map citation_numbers block)))
          (zip [1..<Suc (length (snd sec))] (snd sec))"
    by (simp add: make_section_def make_paragraph_def citation_numbers_join
          case_prod_unfold comp_def del: upt_Suc)
  then show ?thesis
    by (simp only: map_numbered)
qed

lemma set_sources_make_section:
  "set (concat (map sourceIds (sec_paragraphs (make_section ids i sec)))) =
     (\<lambda>n. ids ! (n - 1)) `
       {n \<in> set (concat (map citation_numbers (concat (snd sec)))). in_range ids n}"
  by (simp only: sourceIds_make_section) (auto simp: set_resolve)

lemma set_sources_sections:
  "set (concat (map sourceIds (concat (map sec_paragraphs
      (map (\<lambda>(i, sec). make_section ids i sec) (zip [1..<Suc (length secs)] secs)))))) =
   (\<lambda>n. ids ! (n - 1)) `
     {n \<in> set (concat (map citation_numbers (concat (concat (map snd secs))))). in_range ids n}"
proof -
  have len: "length [1..<Suc (length secs)] = length secs"
    by (simp del: upt_Suc)
  have "set (concat (map sourceIds (concat (map sec_paragraphs
      (map (\<lambda>(i, sec). make_section ids i sec) (zip [1..<Suc (length secs)] secs)))))) =
    set (concat (map (\<lambda>(i, sec). concat (map sourceIds (sec_paragraphs (make_section ids i sec))))
      (zip [1..<Suc (length secs)] secs)))"
    by (simp only: sources_of_sections case_prod_unfold)
  also have "\<dots> = (\<Union>sec \<in> set secs. (\<lambda>n. ids ! (n - 1)) `
         {n \<in> set (concat (map citation_numbers (concat (snd sec)))). in_range ids n})"
    by (rule set_concat_zip [OF len]) (rule set_sources_make_section)
  also have "\<dots> = (\<lambda>n. ids ! (n - 1)) `
     {n \<in> set (concat (map citation_numbers (concat (concat (map snd secs))))). in_range ids n}"
    by auto
  finally show ?thesis .
qed

lemma body_numbers:
  "set (concat (map citation_numbers (filter (\<lambda>l. \<not> is_heading l \<and> \<not> is_blank l) ls))) =
   set (concat (map citation_numbers (filter (\<lambda>l. \<not> is_heading l) ls)))"
  by (auto simp: citation_numbers_blank)

lemma paragraph_sources_structure:
  assumes "structure_article (Some d) lookup = Inr (a, ws)"
  shows "paragraph_sources a =
         referenced_sources (orderedSourceIds d) (body_text (rawText d))"
proof -
  let ?ls = "split_lines [] (rawText d)"
  let ?secs = "all_sections (items_of False ?ls)"
  have a: "sa_sections a = map (\<lambda>(i, sec). make_section (orderedSourceIds d) i sec)
             (zip [1..<Suc (length ?secs)] ?secs)"
    using assms by (auto simp: structure_article_def Let_def simp del: upt_Suc)
  have "paragraph_sources a = (\<lambda>n. orderedSourceIds d ! (n - 1)) `
     {n \<in> set (concat (map citation_numbers (concat (concat (map snd ?secs))))).
        in_range (orderedSourceIds d) n}"
    unfolding paragraph_sources_def all_paragraphs_def a
    by (rule set_sources_sections)
  also have "\<dots> = (\<lambda>n. orderedSourceIds d ! (n - 1)) `
     {n \<in> set (concat (map citation_numbers (filter (\<lambda>l. \<not> is_heading l) ?ls))).
        in_range (orderedSourceIds d) n}"
    by (simp only: concat_all_sections para_lines_items_of body_numbers)
  also have "\<dots> = referenced_sources (orderedSourceIds d) (body_text (rawText d))"
    by (simp add: referenced_sources_def body_text_def citation_numbers_join)
  finally show ?thesis .
qed

lemmas structure_defs = structure_article_def Let_def roman_draft_def heading_cited_draft_def
  roman_catalog_def no_catalog_def roman_article_def heading_cited_article_def line_feed_def
  is_heading_def is_section_heading_def heading_text_def is_blank_def is_space_def trim_def
  first_title_def all_sections_def close_block_def make_section_def make_paragraph_def
  section_warnings_def paragraph_warnings_def paragraph_id_def show_nat.simps resolve_def
  in_range_def citation_numbers_def malformed_count_def strip_markers_def is_digit_def
  digit_value_def is_separator_def cited_ids_def paragraph_sources_def all_paragraphs_def
  referenced_sources_def markers_in_range_def body_text_def char_of_eq_iff_nat
  eq_char_of_iff_nat

text \<open>
  C4 (as amended). For every draft (in particular one in which every citation
  number is a valid 1-based index into the ordered source list), the union of
  the source identifiers over all paragraphs of the structured article is the
  set of the entries of the ordered list that a citation marker refers to in
  the text outside its heading lines. A marker inside a heading line is not
  collected: the headings give the title and the subtitles, and only paragraphs
  are scanned for markers.
\<close>

theorem citation_integrity_outside_headings:
  assumes "markers_in_range d"
      and "structure_article (Some d) sourceCatalogLookup = Inr (a, warnings)"
  shows "paragraph_sources a =
         referenced_sources (orderedSourceIds d) (body_text (rawText d))"
  using assms(2) by (rule paragraph_sources_structure)

theorem citation_integrity_outside_headings_witness:
  "markers_in_range roman_draft \<and>
   structure_article (Some roman_draft) roman_catalog =
     Inr (roman_article, [UnresolvedSource ''src-B'']) \<and>
   paragraph_sources roman_article = {''src-A'', ''src-B''} \<and>
   referenced_sources (orderedSourceIds roman_draft) (body_text (rawText roman_draft)) =
     {''src-A'', ''src-B''}"
proof -
  have h1: "markers_in_range roman_draft"
    by (simp add: structure_defs)
  have h2: "structure_article (Some roman_draft) roman_catalog =
     Inr (roman_article, [UnresolvedSource ''src-B''])"
    by (simp add: structure_defs)
  have p: "paragraph_sources roman_article = {''src-A'', ''src-B''}"
    by (simp add: structure_defs insert_commute)
  show ?thesis
    using h1 h2 p citation_integrity_outside_headings [OF h1 h2] by simp
qed

theorem heading_citation_counterexample:
  "markers_in_range heading_cited_draft \<and>
   structure_article (Some heading_cited_draft) no_catalog = Inr (heading_cited_article, []) \<and>
   paragraph_sources heading_cited_article = {} \<and>
   referenced_sources (orderedSourceIds heading_cited_draft) (rawText heading_cited_draft) =
     {''src-A''}"
  by (simp add: structure_defs)

end
